theory Spec2Isabelle
  imports Main "HOL-Library.Sublist" "HOL-Library.Word"
begin

section \<open>The file system\<close>

text \<open>
  \<^verbatim>\<open>copy_skill.py\<close> is one procedure: an existence test, three file-system
  calls (\<^verbatim>\<open>shutil.rmtree\<close>, \<^verbatim>\<open>shutil.copytree\<close> twice) and two prints.
  Its whole state is the file system, which is modelled as one store for the
  source and the destination together: a partial map from absolute locations
  (the list of path components, the drive first) to what is there. A file
  carries its bytes. Symbolic links are not part of the model.
\<close>

type_synonym path = "string list"

type_synonym bytes = "8 word list"

datatype node = File bytes | Dir

type_synonym fs = "path \<Rightarrow> node option"

text \<open>
  A store is a file system when the parent of everything that exists is a
  directory.
\<close>

definition wf_fs :: "fs \<Rightarrow> bool" where
  "wf_fs t \<longleftrightarrow> (\<forall>p a. t p \<noteq> None \<and> strict_prefix a p \<longrightarrow> t a = Some Dir)"

definition is_dir :: "fs \<Rightarrow> path \<Rightarrow> bool" where
  "is_dir t p \<longleftrightarrow> t p = Some Dir"

definition is_file :: "fs \<Rightarrow> path \<Rightarrow> bool" where
  "is_file t p \<longleftrightarrow> (case t p of Some (File b) \<Rightarrow> True | _ \<Rightarrow> False)"

definition path_exists :: "fs \<Rightarrow> path \<Rightarrow> bool" where
  "path_exists t p \<longleftrightarrow> t p \<noteq> None"

fun ancestors :: "path \<Rightarrow> path list" where
  "ancestors [] = []"
| "ancestors (x # xs) = [] # map ((#) x) (ancestors xs)"

section \<open>pathlib\<close>

text \<open>
  A \<^verbatim>\<open>Path\<close> is a pure value: absolute, or relative to the working directory
  of the process. The script's source path starts with a drive, so paths are
  read as Windows paths: the separator printed by \<^verbatim>\<open>str\<close> is the backslash.
\<close>

datatype ppath = Absolute path | Relative path

fun joinpath :: "ppath \<Rightarrow> string \<Rightarrow> ppath" where
  "joinpath (Absolute p) name = Absolute (p @ [name])"
| "joinpath (Relative p) name = Relative (p @ [name])"

fun resolve :: "path \<Rightarrow> ppath \<Rightarrow> path" where
  "resolve cwd (Absolute p) = p"
| "resolve cwd (Relative p) = cwd @ p"

definition sep :: char where
  "sep = CHR 0x5C"

fun join_sep :: "string list \<Rightarrow> string" where
  "join_sep [] = []"
| "join_sep [x] = x"
| "join_sep (x # y # ys) = x @ [sep] @ join_sep (y # ys)"

fun str_path :: "ppath \<Rightarrow> string" where
  "str_path (Absolute p) = join_sep p"
| "str_path (Relative p) = (if p = [] then ''.'' else join_sep p)"

section \<open>shutil\<close>

datatype error = FileNotFoundError | NotADirectoryError | FileExistsError | OtherError

text \<open>
  \<^verbatim>\<open>shutil.rmtree(p)\<close> raises when \<^verbatim>\<open>p\<close> is missing or is not a directory,
  and otherwise deletes \<^verbatim>\<open>p\<close> and everything below it. The deletion can be
  interrupted by the environment (a permission, a lock): the argument
  \<open>fault\<close> is \<open>None\<close> when it is not, and \<open>Some gone\<close> when it raises after
  the subtrees rooted at \<open>gone\<close>, strictly below \<^verbatim>\<open>p\<close>, have been deleted.
  An error comes with the store it leaves behind.
\<close>

definition rmtree :: "path list option \<Rightarrow> fs \<Rightarrow> path \<Rightarrow> (error \<times> fs) + fs" where
  "rmtree fault t p =
     (case t p of
        None \<Rightarrow> Inl (FileNotFoundError, t)
      | Some (File b) \<Rightarrow> Inl (NotADirectoryError, t)
      | Some Dir \<Rightarrow>
          (case fault of
             None \<Rightarrow> Inr (\<lambda>q. if prefix p q then None else t q)
           | Some gone \<Rightarrow>
               Inl (OtherError,
                    \<lambda>q. if list_ex (\<lambda>g. strict_prefix p g \<and> prefix g q) gone then None else t q)))"

text \<open>
  \<^verbatim>\<open>shutil.copytree(src, dst)\<close> lists \<^verbatim>\<open>src\<close> first (it raises when \<^verbatim>\<open>src\<close>
  is missing or is not a directory), then creates \<^verbatim>\<open>dst\<close> with
  \<^verbatim>\<open>os.makedirs\<close> (which raises when \<^verbatim>\<open>dst\<close> exists or a parent of it is a
  file, and creates the missing parents), then copies every entry below.

  When \<^verbatim>\<open>dst\<close> lies inside a subdirectory of \<^verbatim>\<open>src\<close> that is listed, the
  copy of that subdirectory meets its own output and does not come to an end
  before the interpreter or the file system stops it with an error.
\<close>

definition copies_into_itself :: "fs \<Rightarrow> path \<Rightarrow> path \<Rightarrow> bool" where
  "copies_into_itself t src dst \<longleftrightarrow>
     prefix src dst \<and>
     (case drop (length src) dst of
        x # y # rest \<Rightarrow> t (src @ [x]) = Some Dir
      | _ \<Rightarrow> False)"

text \<open>
  The environment can interrupt a copy as well (a permission, a full disk).
  A copy that raises after it has started writing leaves \<open>leftover\<close>: new
  entries at \<^verbatim>\<open>dst\<close>, below it, or at a parent of it that was missing.
  Nothing that existed before is touched.
\<close>

record copy_fault =
  interrupted :: bool
  leftover :: fs

definition partial_copy :: "fs \<Rightarrow> fs \<Rightarrow> path \<Rightarrow> fs" where
  "partial_copy junk t dst =
     (\<lambda>q. if t q = None \<and> (prefix dst q \<or> prefix q dst) then junk q else t q)"

definition copytree :: "copy_fault \<Rightarrow> fs \<Rightarrow> path \<Rightarrow> path \<Rightarrow> (error \<times> fs) + fs" where
  "copytree fault t src dst =
     (case t src of
        None \<Rightarrow> Inl (FileNotFoundError, t)
      | Some (File b) \<Rightarrow> Inl (NotADirectoryError, t)
      | Some Dir \<Rightarrow>
          if t dst \<noteq> None then Inl (FileExistsError, t)
          else if list_ex (is_file t) (ancestors dst) then Inl (OtherError, t)
          else if copies_into_itself t src dst \<or> interrupted fault
            then Inl (OtherError, partial_copy (leftover fault) t dst)
          else Inr (\<lambda>q. if prefix dst q then t (src @ drop (length dst) q)
                        else if strict_prefix q dst \<and> t q = None then Some Dir
                        else t q))"

section \<open>The existence test\<close>

text \<open>
  \<^verbatim>\<open>Path.exists()\<close> asks the file system and answers \<open>False\<close> for a path
  that is not there, but it lets every other error of the query through (a
  permission that is missing on the way to the path). Whether the store holds
  something at a location is \<open>path_exists\<close>; the call is \<open>pathlib_exists\<close>,
  which raises when the environment makes the query fail.
\<close>

definition pathlib_exists :: "bool \<Rightarrow> fs \<Rightarrow> path \<Rightarrow> error + bool" where
  "pathlib_exists fault t p = (if fault then Inl OtherError else Inr (path_exists t p))"

section \<open>The process\<close>

text \<open>
  What a run does is recorded next to the store: every \<^verbatim>\<open>shutil\<close> call with
  the locations it was given and the error it raised, if any, every line
  printed, and an existence test or a print that raised, in the order they
  happen. The process also carries its argument list and its environment,
  which Python hands to every script as \<^verbatim>\<open>sys.argv\<close> and \<^verbatim>\<open>os.environ\<close>.
\<close>

datatype event =
    Rmtree path "error option"
  | Copytree path path "error option"
  | Print string
  | ExistsFailed path error
  | PrintFailed string error

record world =
  files :: fs
  events :: "event list"
  sys_argv :: "string list"
  os_environ :: "string \<Rightarrow> string option"

datatype outcome = Returned world | Raised error world

fun and_then :: "outcome \<Rightarrow> (world \<Rightarrow> outcome) \<Rightarrow> outcome" where
  "and_then (Returned w) k = k w"
| "and_then (Raised e w) k = Raised e w"

definition sh_rmtree :: "path list option \<Rightarrow> path \<Rightarrow> ppath \<Rightarrow> world \<Rightarrow> outcome" where
  "sh_rmtree fault cwd p w =
     (case rmtree fault (files w) (resolve cwd p) of
        Inl (e, t) \<Rightarrow>
          Raised e (w\<lparr>files := t, events := events w @ [Rmtree (resolve cwd p) (Some e)]\<rparr>)
      | Inr t \<Rightarrow>
          Returned (w\<lparr>files := t, events := events w @ [Rmtree (resolve cwd p) None]\<rparr>))"

definition sh_copytree :: "copy_fault \<Rightarrow> path \<Rightarrow> ppath \<Rightarrow> ppath \<Rightarrow> world \<Rightarrow> outcome" where
  "sh_copytree fault cwd src dst w =
     (case copytree fault (files w) (resolve cwd src) (resolve cwd dst) of
        Inl (e, t) \<Rightarrow>
          Raised e (w\<lparr>files := t,
                      events := events w @ [Copytree (resolve cwd src) (resolve cwd dst) (Some e)]\<rparr>)
      | Inr t \<Rightarrow>
          Returned (w\<lparr>files := t,
                      events := events w @ [Copytree (resolve cwd src) (resolve cwd dst) None]\<rparr>))"

text \<open>
  \<^verbatim>\<open>print\<close> raises when standard output cannot be written (a full disk behind
  a redirection, a pipe that was closed).
\<close>

definition print_line :: "bool \<Rightarrow> string \<Rightarrow> world \<Rightarrow> outcome" where
  "print_line fault s w =
     (if fault then Raised OtherError (w\<lparr>events := events w @ [PrintFailed s OtherError]\<rparr>)
      else Returned (w\<lparr>events := events w @ [Print s]\<rparr>))"

section \<open>copy_skill.py\<close>

definition SOURCE_DIR :: ppath where
  "SOURCE_DIR = Absolute [''C:'', ''Users'', ''emili'', ''Downloads'', ''skills'',
                          ''ui-ux-pro-max-skill'', ''src'', ''ui-ux-pro-max'']"

definition DEST_DIR :: ppath where
  "DEST_DIR = Relative [''.skill'']"

text \<open>
  The faults the environment holds ready for the calls of a run, in the order
  of the calls, and for the flush of standard output when the interpreter
  exits.
\<close>

record faults =
  exists_fault :: bool
  rmtree_fault :: "path list option"
  scripts_fault :: copy_fault
  print_scripts_fault :: bool
  data_fault :: copy_fault
  print_data_fault :: bool
  flush_fault :: bool

definition copy_skill :: "faults \<Rightarrow> path \<Rightarrow> world \<Rightarrow> outcome" where
  "copy_skill env cwd w0 =
     (case pathlib_exists (exists_fault env) (files w0) (resolve cwd DEST_DIR) of
        Inl e \<Rightarrow> Raised e (w0\<lparr>events := events w0 @ [ExistsFailed (resolve cwd DEST_DIR) e]\<rparr>)
      | Inr there \<Rightarrow>
     and_then
       (if there
        then sh_rmtree (rmtree_fault env) cwd DEST_DIR w0
        else Returned w0)
       (\<lambda>w1.
          let scripts_src = joinpath SOURCE_DIR ''scripts'';
              scripts_dest = joinpath DEST_DIR ''scripts''
          in and_then (sh_copytree (scripts_fault env) cwd scripts_src scripts_dest w1)
          (\<lambda>w2. and_then (print_line (print_scripts_fault env)
                             (''Copied scripts to '' @ str_path scripts_dest) w2)
          (\<lambda>w3.
          let data_src = joinpath SOURCE_DIR ''data'';
              data_dest = joinpath DEST_DIR ''data''
          in and_then (sh_copytree (data_fault env) cwd data_src data_dest w3)
          (\<lambda>w4. print_line (print_data_fault env)
                   (''Copied data to '' @ str_path data_dest) w4)))))"

text \<open>
  The script's entry: a process is started with an argument list and an
  environment, in a working directory, on a file system. The main guard
  calls \<^verbatim>\<open>copy_skill()\<close>.
\<close>

definition main :: "string list \<Rightarrow> (string \<Rightarrow> string option) \<Rightarrow> faults \<Rightarrow> path \<Rightarrow> fs \<Rightarrow> outcome" where
  "main argv environ env cwd t =
     copy_skill env cwd \<lparr>files = t, events = [], sys_argv = argv, os_environ = environ\<rparr>"

fun final :: "outcome \<Rightarrow> world" where
  "final (Returned w) = w"
| "final (Raised e w) = w"

fun stdout :: "event list \<Rightarrow> string list" where
  "stdout [] = []"
| "stdout (Print s # evs) = s # stdout evs"
| "stdout (ev # evs) = stdout evs"

text \<open>
  When the interpreter exits it flushes standard output. An exception that
  nothing caught gives status 1, a script that ran to its end status 0; a
  flush that fails replaces either by 120. There is something to flush only
  when a print has been called.
\<close>

fun print_called :: "event \<Rightarrow> bool" where
  "print_called (Print s) = True"
| "print_called (PrintFailed s e) = True"
| "print_called ev = False"

definition flush_fails :: "faults \<Rightarrow> world \<Rightarrow> bool" where
  "flush_fails env w \<longleftrightarrow> flush_fault env \<and> list_ex print_called (events w)"

definition exit_status :: "faults \<Rightarrow> outcome \<Rightarrow> nat" where
  "exit_status env out =
     (if flush_fails env (final out) then 120
      else case out of Returned w \<Rightarrow> 0 | Raised e w \<Rightarrow> 1)"

fun failed :: "event \<Rightarrow> bool" where
  "failed (Rmtree p r) = (r \<noteq> None)"
| "failed (Copytree s d r) = (r \<noteq> None)"
| "failed (Print s) = False"
| "failed (ExistsFailed p e) = True"
| "failed (PrintFailed s e) = True"

fun error_of :: "event \<Rightarrow> error option" where
  "error_of (Rmtree p r) = r"
| "error_of (Copytree s d r) = r"
| "error_of (Print s) = None"
| "error_of (ExistsFailed p e) = Some e"
| "error_of (PrintFailed s e) = Some e"


section \<open>Names for the locations and the steps of a run\<close>

text \<open>
  The locations the script computes, resolved against the working directory,
  and the two lines it prints.
\<close>

definition dest :: "path \<Rightarrow> path" where
  "dest cwd = resolve cwd DEST_DIR"

definition scripts_dest :: "path \<Rightarrow> path" where
  "scripts_dest cwd = resolve cwd (joinpath DEST_DIR ''scripts'')"

definition data_dest :: "path \<Rightarrow> path" where
  "data_dest cwd = resolve cwd (joinpath DEST_DIR ''data'')"

definition source :: path where
  "source = resolve [] SOURCE_DIR"

definition scripts_src :: path where
  "scripts_src = resolve [] (joinpath SOURCE_DIR ''scripts'')"

definition data_src :: path where
  "data_src = resolve [] (joinpath SOURCE_DIR ''data'')"

definition line1 :: string where
  "line1 = ''Copied scripts to '' @ str_path (joinpath DEST_DIR ''scripts'')"

definition line2 :: string where
  "line2 = ''Copied data to '' @ str_path (joinpath DEST_DIR ''data'')"

text \<open>
  The first statement of \<^verbatim>\<open>copy_skill\<close> on the store alone
  (\<^verbatim>\<open>if DEST_DIR.exists(): shutil.rmtree(DEST_DIR)\<close>), the event it adds when it
  raises, and what it records when it does not.
\<close>

definition reset :: "faults \<Rightarrow> path \<Rightarrow> fs \<Rightarrow> (error \<times> fs) + fs" where
  "reset env cwd t =
     (case pathlib_exists (exists_fault env) t (dest cwd) of
        Inl e \<Rightarrow> Inl (e, t)
      | Inr there \<Rightarrow> if there then rmtree (rmtree_fault env) t (dest cwd) else Inr t)"

definition reset_failure :: "faults \<Rightarrow> path \<Rightarrow> error \<Rightarrow> event" where
  "reset_failure env cwd e =
     (if exists_fault env then ExistsFailed (dest cwd) e else Rmtree (dest cwd) (Some e))"

definition reset_events :: "fs \<Rightarrow> path \<Rightarrow> event list" where
  "reset_events t cwd = (if path_exists t (dest cwd) then [Rmtree (dest cwd) None] else [])"


text \<open>The store a call leaves, whether it raised or not.\<close>

fun left_by :: "(error \<times> fs) + fs \<Rightarrow> fs" where
  "left_by (Inl (e, t)) = t"
| "left_by (Inr t) = t"

text \<open>The store with the destination directory and everything below it taken away.\<close>

definition without_dest :: "fs \<Rightarrow> path \<Rightarrow> fs" where
  "without_dest t cwd = (\<lambda>q. if prefix (dest cwd) q then None else t q)"

text \<open>An environment in which no call of a run is made to fail.\<close>

definition quiet :: "faults \<Rightarrow> bool" where
  "quiet env \<longleftrightarrow>
     \<not> exists_fault env \<and> rmtree_fault env = None \<and> \<not> interrupted (scripts_fault env)
     \<and> \<not> print_scripts_fault env \<and> \<not> interrupted (data_fault env) \<and> \<not> print_data_fault env"

section \<open>Example file systems\<close>

text \<open>
  A store given by the directories and the files it holds; the parents of
  both are directories.
\<close>

definition store :: "path list \<Rightarrow> (path \<times> bytes) list \<Rightarrow> fs" where
  "store dirs fls =
     (\<lambda>q. if list_ex (prefix q) dirs \<or> list_ex (\<lambda>f. strict_prefix q (fst f)) fls then Some Dir
          else map_option File (map_of fls q))"

definition no_faults :: faults where
  "no_faults = \<lparr>exists_fault = False,
                rmtree_fault = None,
                scripts_fault = \<lparr>interrupted = False, leftover = Map.empty\<rparr>,
                print_scripts_fault = False,
                data_fault = \<lparr>interrupted = False, leftover = Map.empty\<rparr>,
                print_data_fault = False,
                flush_fault = False\<rparr>"

text \<open>
  The scenario of the specification: the source holds \<^verbatim>\<open>scripts/build.sh\<close>
  and \<^verbatim>\<open>data/config.json\<close>, and the working directory has no \<^verbatim>\<open>.skill\<close> yet.
\<close>

definition demo_cwd :: path where
  "demo_cwd = [''C:'', ''work'']"

definition demo_fs :: fs where
  "demo_fs = store [scripts_src, data_src, demo_cwd]
      [(scripts_src @ [''build.sh''], [35, 33]), (data_src @ [''config.json''], [123, 125])]"

text \<open>
  The same source, with a destination left over from before: a stale file, a
  stale directory and a stale script under \<^verbatim>\<open>.skill\<close>.
\<close>

definition stale_fs :: fs where
  "stale_fs = store [scripts_src, data_src, demo_cwd @ [''.skill'', ''cache'']]
      [(scripts_src @ [''build.sh''], [35, 33]), (data_src @ [''config.json''], [123, 125]),
       (demo_cwd @ [''.skill'', ''notes.txt''], [1]),
       (demo_cwd @ [''.skill'', ''scripts'', ''old.sh''], [2])]"

text \<open>A source without its \<^verbatim>\<open>scripts\<close>, and one without its \<^verbatim>\<open>data\<close>.\<close>

definition no_scripts_fs :: fs where
  "no_scripts_fs = store [data_src, demo_cwd] [(data_src @ [''config.json''], [123, 125])]"


text \<open>
  An environment that interrupts the copy of data, one in which the first
  print raises, and one in which the flush at exit fails.
\<close>

definition data_interrupted :: faults where
  "data_interrupted = no_faults\<lparr>data_fault := \<lparr>interrupted = True, leftover = Map.empty\<rparr>\<rparr>"

definition print_broken :: faults where
  "print_broken = no_faults\<lparr>print_scripts_fault := True\<rparr>"

definition flush_broken :: faults where
  "flush_broken = no_faults\<lparr>flush_fault := True\<rparr>"

text \<open>
  The script started from inside the source: with \<^verbatim>\<open>scripts\<close> as working
  directory, where an earlier \<^verbatim>\<open>.skill\<close> holds a file, and with the source
  directory as working directory, likewise.
\<close>

definition nested_fs :: fs where
  "nested_fs = store [data_src]
      [(scripts_src @ [''build.sh''], [35, 33]), (data_src @ [''config.json''], [123, 125]),
       (scripts_src @ [''.skill'', ''old.txt''], [1])]"

definition inside_fs :: fs where
  "inside_fs = store [scripts_src, data_src]
      [(scripts_src @ [''build.sh''], [35, 33]), (data_src @ [''config.json''], [123, 125]),
       (source @ [''.skill'', ''old.txt''], [1])]"

section \<open>Facts about the model\<close>

lemma set_ancestors: "set (ancestors p) = {a. strict_prefix a p}"
proof (induction p)
  case Nil
  show ?case by simp
next
  case (Cons x xs)
  show ?case
  proof (rule set_eqI)
    fix a
    show "a \<in> set (ancestors (x # xs)) \<longleftrightarrow> a \<in> {a. strict_prefix a (x # xs)}"
      using Cons by (cases a) auto
  qed
qed

lemma wf_store: "wf_fs (store dirs fls)"
  unfolding wf_fs_def
proof (intro allI impI)
  fix p a
  assume h: "store dirs fls p \<noteq> None \<and> strict_prefix a p"
  then have ap: "strict_prefix a p" by simp
  show "store dirs fls a = Some Dir"
  proof (cases "list_ex (prefix p) dirs \<or> list_ex (\<lambda>f. strict_prefix p (fst f)) fls")
    case True
    then have "list_ex (prefix a) dirs \<or> list_ex (\<lambda>f. strict_prefix a (fst f)) fls"
      using ap unfolding list_ex_iff
      by (meson prefix_order.less_imp_le prefix_order.trans prefix_order.less_trans)
    then show ?thesis by (simp add: store_def)
  next
    case False
    with h obtain b where "map_of fls p = Some b" by (auto simp: store_def)
    then have "(p, b) \<in> set fls" by (rule map_of_SomeD)
    then have "list_ex (\<lambda>f. strict_prefix a (fst f)) fls"
      using ap unfolding list_ex_iff by force
    then show ?thesis by (simp add: store_def)
  qed
qed

lemma locs:
  "dest cwd = cwd @ [''.skill'']"
  "scripts_dest cwd = cwd @ [''.skill'', ''scripts'']"
  "data_dest cwd = cwd @ [''.skill'', ''data'']"
  "scripts_src = source @ [''scripts'']"
  "data_src = source @ [''data'']"
  by (simp_all add: dest_def scripts_dest_def data_dest_def scripts_src_def data_src_def
      source_def DEST_DIR_def SOURCE_DIR_def)

lemma resolve_locs [simp]:
  "resolve cwd (joinpath SOURCE_DIR ''scripts'') = scripts_src"
  "resolve cwd (joinpath SOURCE_DIR ''data'') = data_src"
  "resolve cwd SOURCE_DIR = source"
  by (simp_all add: scripts_src_def data_src_def source_def SOURCE_DIR_def)

lemma copy_skill_unfold:
  "copy_skill env cwd w0 =
     (case reset env cwd (files w0) of
        Inl (e, t) \<Rightarrow>
          Raised e (w0\<lparr>files := t, events := events w0 @ [reset_failure env cwd e]\<rparr>)
      | Inr t1 \<Rightarrow>
         (case copytree (scripts_fault env) t1 scripts_src (scripts_dest cwd) of
            Inl (e, t) \<Rightarrow>
              Raised e (w0\<lparr>files := t, events := events w0 @ reset_events (files w0) cwd
                 @ [Copytree scripts_src (scripts_dest cwd) (Some e)]\<rparr>)
          | Inr t2 \<Rightarrow>
             if print_scripts_fault env
             then Raised OtherError (w0\<lparr>files := t2, events := events w0 @ reset_events (files w0) cwd
                   @ [Copytree scripts_src (scripts_dest cwd) None, PrintFailed line1 OtherError]\<rparr>)
             else
             (case copytree (data_fault env) t2 data_src (data_dest cwd) of
                Inl (e, t) \<Rightarrow>
                  Raised e (w0\<lparr>files := t, events := events w0 @ reset_events (files w0) cwd
                   @ [Copytree scripts_src (scripts_dest cwd) None, Print line1,
                      Copytree data_src (data_dest cwd) (Some e)]\<rparr>)
              | Inr t3 \<Rightarrow>
                  if print_data_fault env
                  then Raised OtherError (w0\<lparr>files := t3, events := events w0 @ reset_events (files w0) cwd
                   @ [Copytree scripts_src (scripts_dest cwd) None, Print line1,
                      Copytree data_src (data_dest cwd) None, PrintFailed line2 OtherError]\<rparr>)
                  else Returned (w0\<lparr>files := t3, events := events w0 @ reset_events (files w0) cwd
                   @ [Copytree scripts_src (scripts_dest cwd) None, Print line1,
                      Copytree data_src (data_dest cwd) None, Print line2]\<rparr>))))"
  unfolding copy_skill_def reset_def reset_events_def reset_failure_def sh_rmtree_def
    sh_copytree_def print_line_def pathlib_exists_def Let_def line1_def line2_def
  by (simp add: dest_def scripts_dest_def data_dest_def split: sum.splits prod.splits)

lemma rmtree_Inr:
  "rmtree f t p = Inr t' \<Longrightarrow> t' = (\<lambda>q. if prefix p q then None else t q)"
  by (auto simp: rmtree_def split: option.splits node.splits)

lemma rmtree_Inl:
  assumes "rmtree f t p = Inl (e, t')"
  shows "t p \<noteq> None \<Longrightarrow> e \<noteq> FileNotFoundError"
    and "\<not> strict_prefix p q \<Longrightarrow> t' q = t q"
    and "t' q = None \<or> t' q = t q"
proof -
  show "t p \<noteq> None \<Longrightarrow> e \<noteq> FileNotFoundError"
    using assms by (auto simp: rmtree_def split: option.splits node.splits)
  have gone: "list_ex (\<lambda>g. strict_prefix p g \<and> prefix g q) gone \<Longrightarrow> strict_prefix p q" for gone
    unfolding list_ex_iff by (blast dest: prefix_order.less_le_trans)
  show "t' q = t q" if "\<not> strict_prefix p q"
  proof -
    from that gone have "\<not> list_ex (\<lambda>g. strict_prefix p g \<and> prefix g q) gone" for gone
      by blast
    with assms show ?thesis
      by (auto simp: rmtree_def split: option.splits node.splits)
  qed
  show "t' q = None \<or> t' q = t q"
    using assms by (auto simp: rmtree_def split: option.splits node.splits)
qed

lemma reset_Inr:
  "reset env cwd t = Inr t1 \<Longrightarrow>
     t1 = (\<lambda>q. if t (dest cwd) \<noteq> None \<and> prefix (dest cwd) q then None else t q)"
  by (auto simp: reset_def pathlib_exists_def path_exists_def dest: rmtree_Inr split: if_splits)

lemma reset_Inr_quiet: "reset env cwd t = Inr t1 \<Longrightarrow> \<not> exists_fault env"
  by (auto simp: reset_def pathlib_exists_def split: if_splits)

lemma reset_Inl:
  assumes "reset env cwd t = Inl (e, t')"
  shows "\<not> exists_fault env \<Longrightarrow> path_exists t (dest cwd)"
    and "e \<noteq> FileNotFoundError"
    and "\<not> strict_prefix (dest cwd) q \<Longrightarrow> t' q = t q"
    and "t' q = None \<or> t' q = t q"
    and "e \<noteq> FileExistsError"
proof -
  consider (test) "exists_fault env" "e = OtherError" "t' = t"
    | (delete) "\<not> exists_fault env" "path_exists t (dest cwd)"
        "rmtree (rmtree_fault env) t (dest cwd) = Inl (e, t')"
    using assms by (auto simp: reset_def pathlib_exists_def split: if_splits)
  then have "(\<not> exists_fault env \<longrightarrow> path_exists t (dest cwd)) \<and> e \<noteq> FileNotFoundError
     \<and> (\<not> strict_prefix (dest cwd) q \<longrightarrow> t' q = t q) \<and> (t' q = None \<or> t' q = t q)
     \<and> e \<noteq> FileExistsError"
  proof cases
    case test
    then show ?thesis by simp
  next
    case delete
    have "e \<noteq> FileExistsError"
      using delete(3) by (auto simp: rmtree_def split: option.splits node.splits)
    with rmtree_Inl(1) [OF delete(3)] rmtree_Inl(2) [OF delete(3), of q]
      rmtree_Inl(3) [OF delete(3), of q] delete(1,2)
    show ?thesis by (auto simp: path_exists_def)
  qed
  then show "\<not> exists_fault env \<Longrightarrow> path_exists t (dest cwd)"
    and "e \<noteq> FileNotFoundError"
    and "\<not> strict_prefix (dest cwd) q \<Longrightarrow> t' q = t q"
    and "t' q = None \<or> t' q = t q"
    and "e \<noteq> FileExistsError"
    by blast+
qed

lemma copytree_Inr:
  assumes "copytree f t s d = Inr t'"
  shows "t s = Some Dir" and "t d = None"
    and "\<not> list_ex (is_file t) (ancestors d)"
    and "\<not> copies_into_itself t s d"
    and "t' = (\<lambda>q. if prefix d q then t (s @ drop (length d) q)
                   else if strict_prefix q d \<and> t q = None then Some Dir
                   else t q)"
  using assms
  by (auto simp: copytree_def split: option.splits node.splits if_splits)

lemma copytree_Inl:
  assumes "copytree f t s d = Inl (e, t')"
  shows "t q \<noteq> None \<or> \<not> (prefix d q \<or> prefix q d) \<Longrightarrow> t' q = t q"
    and "e = FileExistsError \<Longrightarrow> t d \<noteq> None"
    and "t s \<noteq> Some Dir \<Longrightarrow> t' = t"
  using assms
  by (auto simp: copytree_def partial_copy_def split: option.splits node.splits if_splits)

lemma skill_notin:
  "''.skill'' \<notin> set source" "''.skill'' \<notin> set scripts_src" "''.skill'' \<notin> set data_src"
  by (simp_all add: source_def scripts_src_def data_src_def SOURCE_DIR_def)

lemma prefix_through: "x \<notin> set p \<Longrightarrow> prefix p (c @ x # r) \<Longrightarrow> prefix p c"
  by (auto simp: prefix_append prefix_Cons)

lemma not_prefix_of: "x \<notin> set p \<Longrightarrow> \<not> prefix (c @ x # r) p"
  by (auto simp: prefix_def)

lemma dest_prefix_scripts: "strict_prefix (dest cwd) (scripts_dest cwd)"
  and dest_prefix_data: "strict_prefix (dest cwd) (data_dest cwd)"
  by (simp_all add: locs strict_prefix_def)

lemma below_dests:
  "prefix (scripts_dest cwd) q \<Longrightarrow> prefix (dest cwd) q"
  "prefix (data_dest cwd) q \<Longrightarrow> prefix (dest cwd) q"
  by (auto simp: locs prefix_def)

lemma above_dests:
  "strict_prefix q (scripts_dest cwd) \<longleftrightarrow> q = dest cwd \<or> prefix q cwd"
  "strict_prefix q (data_dest cwd) \<longleftrightarrow> q = dest cwd \<or> prefix q cwd"
  "prefix q (dest cwd) \<longleftrightarrow> q = dest cwd \<or> prefix q cwd"
proof -
  have "strict_prefix q (cwd @ [a, b]) \<longleftrightarrow> q = cwd @ [a] \<or> prefix q cwd" for a b :: string
    using prefix_snoc [of q "cwd @ [a]" b] prefix_snoc [of q cwd a]
    by (auto simp: strict_prefix_def)
  then show "strict_prefix q (scripts_dest cwd) \<longleftrightarrow> q = dest cwd \<or> prefix q cwd"
    "strict_prefix q (data_dest cwd) \<longleftrightarrow> q = dest cwd \<or> prefix q cwd"
    by (simp_all add: locs)
  show "prefix q (dest cwd) \<longleftrightarrow> q = dest cwd \<or> prefix q cwd"
    by (simp add: locs prefix_snoc)
qed

lemma siblings:
  "\<not> prefix (scripts_dest cwd) (data_dest cwd @ r)"
  "\<not> prefix (data_dest cwd) (scripts_dest cwd @ r)"
  "\<not> prefix (scripts_dest cwd @ r) (data_dest cwd)"
  "\<not> prefix (data_dest cwd @ r) (scripts_dest cwd)"
  by (auto simp: locs prefix_def)

subsection \<open>What a step leaves untouched\<close>

lemma rmtree_error_kind:
  "rmtree f t p = Inl (e, t') \<Longrightarrow> e \<noteq> FileExistsError"
  by (auto simp: rmtree_def split: option.splits node.splits)

lemma reset_frame:
  assumes "\<not> prefix (dest cwd) q"
  shows "left_by (reset env cwd t) q = t q"
proof (cases "reset env cwd t")
  case (Inl a)
  obtain e t' where a: "a = (e, t')" by (cases a)
  from assms have "\<not> strict_prefix (dest cwd) q" by (simp add: strict_prefix_def)
  with Inl a show ?thesis using reset_Inl(3) [of env cwd t e t' q] by simp
next
  case (Inr t1)
  with assms show ?thesis by (auto dest: reset_Inr)
qed

lemma copytree_frame:
  assumes "\<not> prefix d q" and "t q \<noteq> None \<or> \<not> prefix q d"
  shows "left_by (copytree f t s d) q = t q"
proof (cases "copytree f t s d")
  case (Inl a)
  obtain e t' where a: "a = (e, t')" by (cases a)
  with Inl assms show ?thesis using copytree_Inl(1) [of f t s d e t' q] by auto
next
  case (Inr t')
  with assms show ?thesis by (auto dest!: copytree_Inr(5) simp: strict_prefix_def)
qed

lemma copytree_makes_parents:
  assumes "copytree f t s d = Inr t'" and "strict_prefix q d"
  shows "t' q = Some Dir"
proof -
  from assms(2) have "q \<in> set (ancestors d)" by (simp add: set_ancestors)
  with copytree_Inr(3) [OF assms(1)] have "\<not> is_file t q"
    by (auto simp: list_ex_iff)
  then have "t q = None \<or> t q = Some Dir"
    by (auto simp: is_file_def split: option.splits node.splits)
  moreover from assms(2) have "\<not> prefix d q" by (auto simp: strict_prefix_def)
  ultimately show ?thesis
    using assms(2) copytree_Inr(5) [OF assms(1)] by auto
qed

lemma files_final_copy_skill:
  "files (final (copy_skill env cwd w0)) =
     (case reset env cwd (files w0) of
        Inl a \<Rightarrow> left_by (Inl a)
      | Inr t1 \<Rightarrow>
          (case copytree (scripts_fault env) t1 scripts_src (scripts_dest cwd) of
             Inl a \<Rightarrow> left_by (Inl a)
           | Inr t2 \<Rightarrow>
               if print_scripts_fault env then t2
               else left_by (copytree (data_fault env) t2 data_src (data_dest cwd))))"
  by (auto simp: copy_skill_unfold split: sum.splits prod.splits)

lemma run_frame:
  assumes "\<not> prefix (dest cwd) q" and "files w0 q \<noteq> None \<or> \<not> prefix q cwd"
  shows "files (final (copy_skill env cwd w0)) q = files w0 q"
proof -
  have nd: "\<not> prefix (scripts_dest cwd) q" "\<not> prefix (data_dest cwd) q"
    using assms(1) below_dests by blast+
  have up: "prefix q (scripts_dest cwd) \<Longrightarrow> prefix q cwd" "prefix q (data_dest cwd) \<Longrightarrow> prefix q cwd"
    using assms(1) nd above_dests(1,2) [of q cwd] by (auto simp: strict_prefix_def)
  have 0: "left_by (reset env cwd (files w0)) q = files w0 q"
    using assms(1) by (rule reset_frame)
  have 1: "left_by (copytree (scripts_fault env) t1 scripts_src (scripts_dest cwd)) q = files w0 q"
    if "t1 q = files w0 q" for t1
    using copytree_frame [where t = t1 and q = q and d = "scripts_dest cwd"] that nd(1) up(1) assms(2)
    by auto
  have 2: "left_by (copytree (data_fault env) t2 data_src (data_dest cwd)) q = files w0 q"
    if "t2 q = files w0 q" for t2
    using copytree_frame [where t = t2 and q = q and d = "data_dest cwd"] that nd(2) up(2) assms(2)
    by auto
  show ?thesis
  proof (cases "reset env cwd (files w0)")
    case (Inl a)
    with 0 show ?thesis by (simp add: files_final_copy_skill)
  next
    case r: (Inr t1)
    with 0 have t1: "t1 q = files w0 q" by simp
    show ?thesis
    proof (cases "copytree (scripts_fault env) t1 scripts_src (scripts_dest cwd)")
      case (Inl a)
      with r 1 [of t1] t1 show ?thesis by (simp add: files_final_copy_skill)
    next
      case c: (Inr t2)
      with 1 [of t1] t1 have "t2 q = files w0 q" by simp
      with 2 [of t2] r c show ?thesis by (simp add: files_final_copy_skill)
    qed
  qed
qed

subsection \<open>The shape of a run\<close>

lemma apart:
  assumes "''.skill'' \<notin> set p" and "\<not> prefix p cwd"
  shows "\<not> prefix (cwd @ ''.skill'' # r') (p @ r)"
    and "\<not> prefix (p @ r) (cwd @ ''.skill'' # r')"
proof -
  show "\<not> prefix (cwd @ ''.skill'' # r') (p @ r)"
  proof
    assume "prefix (cwd @ ''.skill'' # r') (p @ r)"
    moreover have "prefix p (p @ r)" by simp
    ultimately have "prefix (cwd @ ''.skill'' # r') p \<or> prefix p (cwd @ ''.skill'' # r')"
      using prefix_same_cases by blast
    with assms show False
      using not_prefix_of [of "''.skill''" p cwd r'] prefix_through [of "''.skill''" p cwd r']
      by blast
  qed
  show "\<not> prefix (p @ r) (cwd @ ''.skill'' # r')"
  proof
    assume "prefix (p @ r) (cwd @ ''.skill'' # r')"
    then have "prefix p (cwd @ ''.skill'' # r')"
      using append_prefixD by blast
    with assms show False
      using prefix_through [of "''.skill''" p cwd r'] by blast
  qed
qed

lemma run_Returned:
  assumes "copy_skill env cwd w0 = Returned w"
  shows "\<exists>t1 t2. reset env cwd (files w0) = Inr t1
           \<and> copytree (scripts_fault env) t1 scripts_src (scripts_dest cwd) = Inr t2
           \<and> copytree (data_fault env) t2 data_src (data_dest cwd) = Inr (files w)"
  using assms by (auto simp: copy_skill_unfold split: sum.splits prod.splits if_splits)

lemma not_from_data_dir:
  assumes c1: "copytree f1 t1 s (scripts_dest cwd) = Inr t2"
    and c2: "copytree f2 t2 data_src (data_dest cwd) = Inr t3"
  shows "\<not> prefix data_src cwd"
proof
  assume "prefix data_src cwd"
  then obtain c where cwd: "cwd = data_src @ c" by (auto simp: prefix_def)
  have dd: "data_dest cwd = data_src @ (c @ [''.skill'', ''data''])"
    by (simp add: locs(3) cwd)
  obtain x y rest where xy: "c @ [''.skill'', ''data''] = x # y # rest"
    and x: "prefix [x] (c @ [''.skill''])"
  proof (cases c)
    case Nil
    show ?thesis by (rule that [of "''.skill''" "''data''" "[]"]) (simp_all add: Nil)
  next
    case (Cons a c')
    then obtain y rest where "c' @ [''.skill'', ''data''] = y # rest"
      by (cases c') auto
    then show ?thesis by (intro that [of a y rest]) (simp_all add: Cons)
  qed
  from x have "prefix (data_src @ [x]) (dest cwd)"
    by (simp add: locs(1) cwd)
  then have "strict_prefix (data_src @ [x]) (scripts_dest cwd)"
    using dest_prefix_scripts [of cwd] by (rule prefix_order.le_less_trans)
  with c1 have "t2 (data_src @ [x]) = Some Dir"
    by (rule copytree_makes_parents)
  then have "copies_into_itself t2 data_src (data_dest cwd)"
    by (simp add: copies_into_itself_def dd xy)
  with copytree_Inr(4) [OF c2] show False by simp
qed

lemma clean_after_reset:
  assumes "wf_fs t" and "reset env cwd t = Inr t1"
  shows "t1 = without_dest t cwd"
proof
  fix q
  show "t1 q = without_dest t cwd q"
  proof (cases "prefix (dest cwd) q")
    case False
    with reset_frame [of cwd q env t] assms(2) show ?thesis by (simp add: without_dest_def)
  next
    case True
    have "t1 q = None"
    proof (cases "t (dest cwd) = None")
      case False
      with True reset_Inr [OF assms(2)] show ?thesis by simp
    next
      case none: True
      have "t q = None"
      proof (rule ccontr)
        assume "t q \<noteq> None"
        moreover from True none this have "strict_prefix (dest cwd) q" by (auto simp: strict_prefix_def)
        ultimately have "t (dest cwd) = Some Dir" using assms(1) unfolding wf_fs_def by blast
        with none show False by simp
      qed
      with reset_Inr [OF assms(2)] show ?thesis by simp
    qed
    with True show ?thesis by (simp add: without_dest_def)
  qed
qed

lemma run_cases [case_names reset_raised scripts_raised print_scripts_raised data_raised
    print_data_raised returned]:
  obtains
    e t' where "reset env cwd (files w0) = Inl (e, t')"
      and "copy_skill env cwd w0 =
             Raised e (w0\<lparr>files := t', events := events w0 @ [reset_failure env cwd e]\<rparr>)"
  | t1 e t' where "reset env cwd (files w0) = Inr t1"
      and "copytree (scripts_fault env) t1 scripts_src (scripts_dest cwd) = Inl (e, t')"
      and "copy_skill env cwd w0 =
             Raised e (w0\<lparr>files := t', events := events w0 @ reset_events (files w0) cwd
               @ [Copytree scripts_src (scripts_dest cwd) (Some e)]\<rparr>)"
  | t1 t2 where "reset env cwd (files w0) = Inr t1"
      and "copytree (scripts_fault env) t1 scripts_src (scripts_dest cwd) = Inr t2"
      and "print_scripts_fault env"
      and "copy_skill env cwd w0 =
             Raised OtherError (w0\<lparr>files := t2, events := events w0 @ reset_events (files w0) cwd
               @ [Copytree scripts_src (scripts_dest cwd) None, PrintFailed line1 OtherError]\<rparr>)"
  | t1 t2 e t' where "reset env cwd (files w0) = Inr t1"
      and "copytree (scripts_fault env) t1 scripts_src (scripts_dest cwd) = Inr t2"
      and "\<not> print_scripts_fault env"
      and "copytree (data_fault env) t2 data_src (data_dest cwd) = Inl (e, t')"
      and "copy_skill env cwd w0 =
             Raised e (w0\<lparr>files := t', events := events w0 @ reset_events (files w0) cwd
               @ [Copytree scripts_src (scripts_dest cwd) None, Print line1,
                  Copytree data_src (data_dest cwd) (Some e)]\<rparr>)"
  | t1 t2 t3 where "reset env cwd (files w0) = Inr t1"
      and "copytree (scripts_fault env) t1 scripts_src (scripts_dest cwd) = Inr t2"
      and "\<not> print_scripts_fault env"
      and "copytree (data_fault env) t2 data_src (data_dest cwd) = Inr t3"
      and "print_data_fault env"
      and "copy_skill env cwd w0 =
             Raised OtherError (w0\<lparr>files := t3, events := events w0 @ reset_events (files w0) cwd
               @ [Copytree scripts_src (scripts_dest cwd) None, Print line1,
                  Copytree data_src (data_dest cwd) None, PrintFailed line2 OtherError]\<rparr>)"
  | t1 t2 t3 where "reset env cwd (files w0) = Inr t1"
      and "copytree (scripts_fault env) t1 scripts_src (scripts_dest cwd) = Inr t2"
      and "\<not> print_scripts_fault env"
      and "copytree (data_fault env) t2 data_src (data_dest cwd) = Inr t3"
      and "\<not> print_data_fault env"
      and "copy_skill env cwd w0 =
             Returned (w0\<lparr>files := t3, events := events w0 @ reset_events (files w0) cwd
               @ [Copytree scripts_src (scripts_dest cwd) None, Print line1,
                  Copytree data_src (data_dest cwd) None, Print line2]\<rparr>)"
proof (cases "reset env cwd (files w0)")
  case (Inl a)
  then show ?thesis using that(1) [of "fst a" "snd a"]
    by (simp add: copy_skill_unfold split: prod.splits)
next
  case r: (Inr t1)
  show ?thesis
  proof (cases "copytree (scripts_fault env) t1 scripts_src (scripts_dest cwd)")
    case (Inl a)
    with r show ?thesis using that(2) [of t1 "fst a" "snd a"]
      by (simp add: copy_skill_unfold split: prod.splits)
  next
    case c: (Inr t2)
    show ?thesis
    proof (cases "print_scripts_fault env")
      case True
      with r c show ?thesis using that(3) [of t1 t2] by (simp add: copy_skill_unfold)
    next
      case p1: False
      show ?thesis
      proof (cases "copytree (data_fault env) t2 data_src (data_dest cwd)")
        case (Inl a)
        with r c p1 show ?thesis using that(4) [of t1 t2 "fst a" "snd a"]
          by (simp add: copy_skill_unfold split: prod.splits)
      next
        case d: (Inr t3)
        show ?thesis
        proof (cases "print_data_fault env")
          case True
          with r c p1 d show ?thesis using that(5) [of t1 t2 t3] by (simp add: copy_skill_unfold)
        next
          case False
          with r c p1 d show ?thesis using that(6) [of t1 t2 t3] by (simp add: copy_skill_unfold)
        qed
      qed
    qed
  qed
qed

lemma data_kept_by_scripts_copy:
  assumes c1: "copytree f1 t1 scripts_src (scripts_dest cwd) = Inr t2"
    and nd: "\<not> prefix data_src cwd"
  shows "t2 (data_src @ r) = t1 (data_src @ r)"
  using copytree_frame [where t = t1 and q = "data_src @ r" and d = "scripts_dest cwd"
      and f = f1 and s = scripts_src] c1
    apart [OF skill_notin(3) nd, where r = r and r' = "[''scripts'']"]
  by (simp add: locs(2))

lemma shape:
  assumes c1: "copytree f1 t1 scripts_src (scripts_dest cwd) = Inr t2"
    and c2: "copytree f2 t2 data_src (data_dest cwd) = Inr t3"
  shows "t3 q =
     (if prefix (scripts_dest cwd) q then t1 (scripts_src @ drop (length (scripts_dest cwd)) q)
      else if prefix (data_dest cwd) q then t1 (data_src @ drop (length (data_dest cwd)) q)
      else if prefix q (dest cwd) \<and> t1 q = None then Some Dir
      else t1 q)"
proof -
  have nd: "\<not> prefix data_src cwd" using c1 c2 by (rule not_from_data_dir)
  have e2: "t2 q = (if prefix (scripts_dest cwd) q then t1 (scripts_src @ drop (length (scripts_dest cwd)) q)
                   else if strict_prefix q (scripts_dest cwd) \<and> t1 q = None then Some Dir
                   else t1 q)" for q
    using copytree_Inr(5) [OF c1] by simp
  have e3: "t3 q = (if prefix (data_dest cwd) q then t2 (data_src @ drop (length (data_dest cwd)) q)
                   else if strict_prefix q (data_dest cwd) \<and> t2 q = None then Some Dir
                   else t2 q)"
    using copytree_Inr(5) [OF c2] by simp
  have up: "strict_prefix q (scripts_dest cwd) \<longleftrightarrow> prefix q (dest cwd)"
    "strict_prefix q (data_dest cwd) \<longleftrightarrow> prefix q (dest cwd)"
    using above_dests [of q cwd] by simp_all
  show ?thesis
  proof (cases "prefix (data_dest cwd) q")
    case True
    then obtain r where q: "q = data_dest cwd @ r" by (auto simp: prefix_def)
    with siblings(1) [of cwd r] have "\<not> prefix (scripts_dest cwd) q" by simp
    with True e3 data_kept_by_scripts_copy [OF c1 nd] show ?thesis by simp
  next
    case nodata: False
    show ?thesis
    proof (cases "prefix (scripts_dest cwd) q")
      case True
      then have "\<not> strict_prefix q (data_dest cwd)"
        unfolding up using dest_prefix_scripts [of cwd]
        by (auto simp: strict_prefix_def)
      with True nodata e3 e2 [of q] show ?thesis by simp
    next
      case False
      with nodata e3 e2 [of q] show ?thesis by (auto simp: up)
    qed
  qed
qed

lemma returned_needs_sources:
  assumes "copy_skill env cwd w0 = Returned w"
  shows "is_dir (files w0) scripts_src" and "is_dir (files w0) data_src"
proof -
  from run_Returned [OF assms] obtain t1 t2 where r: "reset env cwd (files w0) = Inr t1"
    and c1: "copytree (scripts_fault env) t1 scripts_src (scripts_dest cwd) = Inr t2"
    and c2: "copytree (data_fault env) t2 data_src (data_dest cwd) = Inr (files w)"
    by blast
  have sub: "t1 q = Some Dir \<Longrightarrow> files w0 q = Some Dir" for q
    using reset_Inr [OF r] by (auto split: if_splits)
  from copytree_Inr(1) [OF c1] show "is_dir (files w0) scripts_src"
    by (simp add: is_dir_def sub)
  have nd: "\<not> prefix data_src cwd" using c1 c2 by (rule not_from_data_dir)
  from copytree_Inr(1) [OF c2] data_kept_by_scripts_copy [OF c1 nd, of "[]"]
  show "is_dir (files w0) data_src"
    by (simp add: is_dir_def sub)
qed

lemma stdout_reset_events [simp]: "stdout (reset_events t cwd @ evs) = stdout evs"
  by (simp add: reset_events_def)

lemma reset_events_quiet:
  "ev \<in> set (reset_events t cwd) \<Longrightarrow> ev = Rmtree (dest cwd) None"
  by (auto simp: reset_events_def split: if_splits)







lemma returnedI: "exit_status env out = 0 \<Longrightarrow> out = Returned (final out)"
  by (cases out) (simp_all add: exit_status_def split: if_splits)

lemma returned_events:
  assumes "main argv environ env cwd t = Returned w"
  shows "events w = reset_events t cwd @
           [Copytree scripts_src (scripts_dest cwd) None, Print line1,
            Copytree data_src (data_dest cwd) None, Print line2]"
  using assms by (auto simp: main_def copy_skill_unfold split: sum.splits prod.splits if_splits)


section \<open>The claims\<close>

subsection \<open>C1: the copies mirror the source\<close>

text \<open>
  C1, as the specification states it: whenever the source has its \<^verbatim>\<open>scripts\<close>
  and \<^verbatim>\<open>data\<close> directories and the run returns, every file of the two
  subtrees has a byte-identical copy at the same relative path under the
  destination. The destination is relative to the working directory, and
  this fails when the script is started inside the source's \<^verbatim>\<open>scripts\<close>
  directory: a file that lies in the \<^verbatim>\<open>.skill\<close> directory there is part of
  the \<^verbatim>\<open>scripts\<close> subtree, is deleted by the reset and has no copy. The run
  below returns, and \<^verbatim>\<open>scripts/.skill/old.txt\<close> of the source has no
  counterpart \<^verbatim>\<open>.skill/scripts/.skill/old.txt\<close>.
\<close>

theorem copy_misses_file_inside_dest:
  "wf_fs nested_fs
   \<and> is_dir nested_fs scripts_src \<and> is_dir nested_fs data_src
   \<and> exit_status no_faults (main [] Map.empty no_faults scripts_src nested_fs) = 0
   \<and> nested_fs (scripts_src @ [''.skill'', ''old.txt'']) = Some (File [1])
   \<and> files (final (main [] Map.empty no_faults scripts_src nested_fs))
        (scripts_dest scripts_src @ [''.skill'', ''old.txt'']) = None"
proof -
  have "wf_fs nested_fs" by (simp add: nested_fs_def wf_store)
  moreover have "is_dir nested_fs scripts_src \<and> is_dir nested_fs data_src
   \<and> exit_status no_faults (main [] Map.empty no_faults scripts_src nested_fs) = 0
   \<and> nested_fs (scripts_src @ [''.skill'', ''old.txt'']) = Some (File [1])
   \<and> files (final (main [] Map.empty no_faults scripts_src nested_fs))
        (scripts_dest scripts_src @ [''.skill'', ''old.txt'']) = None"
    by code_simp
  ultimately show ?thesis by blast
qed

text \<open>
  C1, amended: after a run that returns, every entry of the source's
  \<^verbatim>\<open>scripts\<close> subtree that does not lie inside the destination directory
  is found, with the same bytes, at the same relative path under
  \<^verbatim>\<open>.skill/scripts\<close>, and every entry of the source's \<^verbatim>\<open>data\<close> subtree at the
  same relative path under \<^verbatim>\<open>.skill/data\<close>. The equations are between what
  the two stores hold there, so a path that is absent in the source is absent
  in the copy, and a directory is a directory.
\<close>

theorem copies_mirror_source:
  assumes "main argv environ env cwd t = Returned w"
  shows "(\<forall>r. \<not> prefix (dest cwd) (scripts_src @ r) \<longrightarrow>
              files w (scripts_dest cwd @ r) = t (scripts_src @ r))
       \<and> (\<forall>r. files w (data_dest cwd @ r) = t (data_src @ r))"
proof -
  from assms obtain t1 t2 where r: "reset env cwd t = Inr t1"
    and c1: "copytree (scripts_fault env) t1 scripts_src (scripts_dest cwd) = Inr t2"
    and c2: "copytree (data_fault env) t2 data_src (data_dest cwd) = Inr (files w)"
    using run_Returned [of env cwd "\<lparr>files = t, events = [], sys_argv = argv, os_environ = environ\<rparr>" w] by (auto simp: main_def)
  have nd: "\<not> prefix data_src cwd" using c1 c2 by (rule not_from_data_dir)
  have "files w (scripts_dest cwd @ r) = t (scripts_src @ r)"
    if out: "\<not> prefix (dest cwd) (scripts_src @ r)" for r
  proof -
    have "files w (scripts_dest cwd @ r) = t2 (scripts_dest cwd @ r)"
      using copytree_frame [where t = t2 and q = "scripts_dest cwd @ r" and d = "data_dest cwd"
          and f = "data_fault env" and s = data_src] c2 siblings(2,3) [of cwd r]
      by simp
    also have "\<dots> = t1 (scripts_src @ r)"
      using copytree_Inr(5) [OF c1] by simp
    also have "\<dots> = t (scripts_src @ r)"
      using reset_frame [OF out, of env t] r by simp
    finally show ?thesis .
  qed
  moreover have "files w (data_dest cwd @ r) = t (data_src @ r)" for r
  proof -
    have "files w (data_dest cwd @ r) = t2 (data_src @ r)"
      using copytree_Inr(5) [OF c2] by simp
    also have "\<dots> = t1 (data_src @ r)"
      using copytree_frame [where t = t1 and q = "data_src @ r" and d = "scripts_dest cwd"
          and f = "scripts_fault env" and s = scripts_src] c1
        apart [OF skill_notin(3) nd, where r = r and r' = "[''scripts'']"]
      by (simp add: locs(2))
    also have "\<dots> = t (data_src @ r)"
      using reset_frame [of cwd "data_src @ r" env t] r
        apart(1) [OF skill_notin(3) nd, where r = r and r' = "[]"]
      by (simp add: locs(1))
    finally show ?thesis .
  qed
  ultimately show ?thesis by blast
qed

theorem copies_mirror_source_witness:
  "main [] Map.empty no_faults demo_cwd demo_fs
     = Returned (final (main [] Map.empty no_faults demo_cwd demo_fs))
   \<and> \<not> prefix (dest demo_cwd) (scripts_src @ [''build.sh''])
   \<and> files (final (main [] Map.empty no_faults demo_cwd demo_fs))
        (scripts_dest demo_cwd @ [''build.sh'']) = Some (File [35, 33])
   \<and> files (final (main [] Map.empty no_faults demo_cwd demo_fs))
        (data_dest demo_cwd @ [''config.json'']) = Some (File [123, 125])"
proof -
  have "exit_status no_faults (main [] Map.empty no_faults demo_cwd demo_fs) = 0" by code_simp
  then have h: "main [] Map.empty no_faults demo_cwd demo_fs
     = Returned (final (main [] Map.empty no_faults demo_cwd demo_fs))" by (rule returnedI)
  have np: "\<not> prefix (dest demo_cwd) (scripts_src @ [''build.sh''])" by code_simp
  have v: "demo_fs (scripts_src @ [''build.sh'']) = Some (File [35, 33])"
    "demo_fs (data_src @ [''config.json'']) = Some (File [123, 125])" by code_simp+
  from copies_mirror_source [OF h] np v h show ?thesis by metis
qed

subsection \<open>C2: nothing of an earlier destination survives\<close>

text \<open>
  C2: on any file system, whatever the destination held before, after a run
  that returns the destination is a directory; everything below it lies in
  \<^verbatim>\<open>.skill/scripts\<close> or \<^verbatim>\<open>.skill/data\<close>; and these two hold exactly the
  copies of the source's \<^verbatim>\<open>scripts\<close> and \<^verbatim>\<open>data\<close> taken from the store from
  which the old destination has been removed. When the destination existed,
  its removal is the first thing the run does.
\<close>

theorem destination_is_exactly_the_copies:
  assumes "wf_fs t" and "main argv environ env cwd t = Returned w"
  shows "is_dir (files w) (dest cwd)
       \<and> (\<forall>q. strict_prefix (dest cwd) q \<and> files w q \<noteq> None \<longrightarrow>
              prefix (scripts_dest cwd) q \<or> prefix (data_dest cwd) q)
       \<and> (\<forall>r. files w (scripts_dest cwd @ r) = without_dest t cwd (scripts_src @ r))
       \<and> (\<forall>r. files w (data_dest cwd @ r) = without_dest t cwd (data_src @ r))
       \<and> (path_exists t (dest cwd) \<longrightarrow> hd (events w) = Rmtree (dest cwd) None)"
proof -
  from assms(2) obtain t1 t2 where r: "reset env cwd t = Inr t1"
    and c1: "copytree (scripts_fault env) t1 scripts_src (scripts_dest cwd) = Inr t2"
    and c2: "copytree (data_fault env) t2 data_src (data_dest cwd) = Inr (files w)"
    using run_Returned [of env cwd "\<lparr>files = t, events = [], sys_argv = argv, os_environ = environ\<rparr>" w] by (auto simp: main_def)
  have t1: "t1 = without_dest t cwd" using assms(1) r by (rule clean_after_reset)
  note sh = shape [OF c1 c2]
  have none: "t1 (dest cwd) = None" by (simp add: t1 without_dest_def)
  have a: "is_dir (files w) (dest cwd)"
    using sh [of "dest cwd"] none dest_prefix_scripts [of cwd] dest_prefix_data [of cwd]
    by (auto simp: is_dir_def strict_prefix_def)
  have b: "prefix (scripts_dest cwd) q \<or> prefix (data_dest cwd) q"
    if "strict_prefix (dest cwd) q \<and> files w q \<noteq> None" for q
  proof (rule ccontr)
    assume no: "\<not> (prefix (scripts_dest cwd) q \<or> prefix (data_dest cwd) q)"
    from that have "\<not> prefix q (dest cwd)" "t1 q = None"
      by (auto simp: strict_prefix_def t1 without_dest_def)
    with no sh [of q] that show False by simp
  qed
  have c: "files w (scripts_dest cwd @ r) = without_dest t cwd (scripts_src @ r)" for r
    using sh [of "scripts_dest cwd @ r"] by (simp add: t1)
  have d: "files w (data_dest cwd @ r) = without_dest t cwd (data_src @ r)" for r
    using sh [of "data_dest cwd @ r"] siblings(1) [of cwd r] by (simp add: t1)
  have e: "path_exists t (dest cwd) \<longrightarrow> hd (events w) = Rmtree (dest cwd) None"
    using returned_events [OF assms(2)] by (simp add: reset_events_def)
  from a b c d e show ?thesis by blast
qed

theorem destination_is_exactly_the_copies_witness:
  "wf_fs stale_fs
   \<and> main [] Map.empty no_faults demo_cwd stale_fs
     = Returned (final (main [] Map.empty no_faults demo_cwd stale_fs))
   \<and> is_dir (files (final (main [] Map.empty no_faults demo_cwd stale_fs))) (dest demo_cwd)
   \<and> files (final (main [] Map.empty no_faults demo_cwd stale_fs))
        (dest demo_cwd @ [''notes.txt'']) = None
   \<and> files (final (main [] Map.empty no_faults demo_cwd stale_fs))
        (scripts_dest demo_cwd @ [''old.sh'']) = None
   \<and> files (final (main [] Map.empty no_faults demo_cwd stale_fs))
        (scripts_dest demo_cwd @ [''build.sh'']) = Some (File [35, 33])"
proof -
  let ?w = "final (main [] Map.empty no_faults demo_cwd stale_fs)"
  have wf: "wf_fs stale_fs" by (simp add: stale_fs_def wf_store)
  have "exit_status no_faults (main [] Map.empty no_faults demo_cwd stale_fs) = 0" by code_simp
  then have h: "main [] Map.empty no_faults demo_cwd stale_fs = Returned ?w" by (rule returnedI)
  note c2 = destination_is_exactly_the_copies [OF wf h]
  have a: "strict_prefix (dest demo_cwd) (dest demo_cwd @ [''notes.txt''])"
    "\<not> prefix (scripts_dest demo_cwd) (dest demo_cwd @ [''notes.txt''])"
    "\<not> prefix (data_dest demo_cwd) (dest demo_cwd @ [''notes.txt''])"
    by code_simp+
  have b: "without_dest stale_fs demo_cwd (scripts_src @ [''old.sh'']) = None"
    "without_dest stale_fs demo_cwd (scripts_src @ [''build.sh'']) = Some (File [35, 33])"
    by code_simp+
  from c2 a have "files ?w (dest demo_cwd @ [''notes.txt'']) = None" by blast
  with c2 b wf h show ?thesis by simp
qed

subsection \<open>C3: scripts first, then data\<close>



subsection \<open>C4: the exit status\<close>

text \<open>
  C4, as stated: the process ends with an error status exactly when a source
  subdirectory is missing or a delete or a copy fails. The script makes two
  more kinds of call that can raise, and the interpreter one more when it
  exits. In the first run below both source directories are there and the
  only file-system call made, the copy of \<^verbatim>\<open>scripts\<close>, has gone through, but
  the print that follows raises and the status is 1. In the second run every
  call of the script goes through, it returns, and the flush of standard
  output at exit fails: the status is 120.
\<close>

theorem error_exit_without_failed_delete_or_copy:
  "is_dir demo_fs scripts_src \<and> is_dir demo_fs data_src
   \<and> events (final (main [] Map.empty print_broken demo_cwd demo_fs))
       = [Copytree scripts_src (scripts_dest demo_cwd) None, PrintFailed line1 OtherError]
   \<and> exit_status print_broken (main [] Map.empty print_broken demo_cwd demo_fs) = 1
   \<and> events (final (main [] Map.empty flush_broken demo_cwd demo_fs))
       = [Copytree scripts_src (scripts_dest demo_cwd) None, Print line1,
          Copytree data_src (data_dest demo_cwd) None, Print line2]
   \<and> exit_status flush_broken (main [] Map.empty flush_broken demo_cwd demo_fs) = 120"
  by code_simp

text \<open>
  C4, amended: the process ends with a status other than 0 exactly when a
  source subdirectory is missing, or a call of the run raised (the existence
  test, the delete, a copy or a print), or the flush of standard output at exit
  fails. A run that raised stopped at the call that raised, which is the last
  event, and the error of the process is the error of that call: nothing
  before it had failed, nothing is caught, retried or turned into another
  error; its status is 1, or 120 when the flush fails too. A run that returns
  has completed both copies, nothing in it has failed, and its status is 0,
  or 120 when the flush fails.
\<close>

theorem exit_status_iff_failure:
  "(exit_status env (main argv environ env cwd t) \<noteq> 0 \<longleftrightarrow>
       \<not> is_dir t scripts_src \<or> \<not> is_dir t data_src
     \<or> (\<exists>ev \<in> set (events (final (main argv environ env cwd t))). failed ev)
     \<or> flush_fails env (final (main argv environ env cwd t)))
   \<and> (\<forall>e w. main argv environ env cwd t = Raised e w \<longrightarrow>
          events w \<noteq> [] \<and> error_of (last (events w)) = Some e
        \<and> (\<forall>ev \<in> set (butlast (events w)). \<not> failed ev)
        \<and> exit_status env (main argv environ env cwd t) = (if flush_fails env w then 120 else 1))
   \<and> (\<forall>w. main argv environ env cwd t = Returned w \<longrightarrow>
          exit_status env (main argv environ env cwd t) = (if flush_fails env w then 120 else 0)
        \<and> Copytree scripts_src (scripts_dest cwd) None \<in> set (events w)
        \<and> Copytree data_src (data_dest cwd) None \<in> set (events w)
        \<and> (\<forall>ev \<in> set (events w). \<not> failed ev))"
proof -
  let ?out = "main argv environ env cwd t"
  let ?w0 = "\<lparr>files = t, events = [], sys_argv = argv, os_environ = environ\<rparr>"
  have quiet: "\<not> failed ev" if "ev \<in> set (reset_events t cwd)" for ev
    using reset_events_quiet [OF that] by simp
  have fl: "failed (reset_failure env cwd e)" "error_of (reset_failure env cwd e) = Some e" for e
    by (simp_all add: reset_failure_def)
  have src: "is_dir t scripts_src \<and> is_dir t data_src" if "?out = Returned w" for w
    using returned_needs_sources [of env cwd ?w0 w] that by (simp add: main_def)
  have core: "(exit_status env ?out \<noteq> 0 \<longleftrightarrow>
        (\<exists>ev \<in> set (events (final ?out)). failed ev) \<or> flush_fails env (final ?out))
      \<and> (\<forall>e w. ?out = Raised e w \<longrightarrow>
          events w \<noteq> [] \<and> error_of (last (events w)) = Some e
        \<and> (\<forall>ev \<in> set (butlast (events w)). \<not> failed ev)
        \<and> exit_status env ?out = (if flush_fails env w then 120 else 1))
      \<and> (\<forall>w. ?out = Returned w \<longrightarrow>
          exit_status env ?out = (if flush_fails env w then 120 else 0)
        \<and> Copytree scripts_src (scripts_dest cwd) None \<in> set (events w)
        \<and> Copytree data_src (data_dest cwd) None \<in> set (events w)
        \<and> (\<forall>ev \<in> set (events w). \<not> failed ev))"
  proof (cases rule: run_cases [of env cwd ?w0])
    case (reset_raised e t')
    then show ?thesis using fl by (simp add: main_def exit_status_def)
  next
    case (scripts_raised t1 e t')
    then show ?thesis using quiet by (auto simp: main_def exit_status_def butlast_append)
  next
    case (print_scripts_raised t1 t2)
    then show ?thesis using quiet by (auto simp: main_def exit_status_def butlast_append)
  next
    case (data_raised t1 t2 e t')
    then show ?thesis using quiet by (auto simp: main_def exit_status_def butlast_append)
  next
    case (print_data_raised t1 t2 t3)
    then show ?thesis using quiet by (auto simp: main_def exit_status_def butlast_append)
  next
    case (returned t1 t2 t3)
    then show ?thesis using quiet by (auto simp: main_def exit_status_def)
  qed
  moreover have "exit_status env ?out \<noteq> 0" if "\<not> is_dir t scripts_src \<or> \<not> is_dir t data_src"
  proof (cases ?out)
    case (Returned w)
    with src that show ?thesis by blast
  next
    case (Raised e w)
    then show ?thesis by (simp add: exit_status_def)
  qed
  ultimately show ?thesis by blast
qed

theorem exit_status_iff_failure_witness:
  "exit_status no_faults (main [] Map.empty no_faults demo_cwd demo_fs) = 0
   \<and> is_dir demo_fs scripts_src
   \<and> is_dir demo_fs data_src
   \<and> list_all (\<lambda>ev. \<not> failed ev) (events (final (main [] Map.empty no_faults demo_cwd demo_fs)))
   \<and> \<not> is_dir no_scripts_fs scripts_src
   \<and> exit_status no_faults (main [] Map.empty no_faults demo_cwd no_scripts_fs) \<noteq> 0
   \<and> exit_status print_broken (main [] Map.empty print_broken demo_cwd demo_fs) = 1
   \<and> \<not> flush_fails print_broken (final (main [] Map.empty print_broken demo_cwd demo_fs))
   \<and> list_ex failed (events (final (main [] Map.empty print_broken demo_cwd demo_fs)))"
proof -
  have ok: "exit_status no_faults (main [] Map.empty no_faults demo_cwd demo_fs) = 0" by code_simp
  have a: "\<not> is_dir no_scripts_fs scripts_src" by code_simp
  have bad: "exit_status print_broken (main [] Map.empty print_broken demo_cwd demo_fs) = 1"
    by code_simp
  have nf: "\<not> flush_fails print_broken (final (main [] Map.empty print_broken demo_cwd demo_fs))"
    by (simp add: flush_fails_def print_broken_def no_faults_def)
  note good = exit_status_iff_failure [of no_faults "[]" Map.empty demo_cwd demo_fs]
  from ok good have 1: "is_dir demo_fs scripts_src" "is_dir demo_fs data_src"
    "list_all (\<lambda>ev. \<not> failed ev) (events (final (main [] Map.empty no_faults demo_cwd demo_fs)))"
    unfolding list_all_iff by auto
  from a exit_status_iff_failure [of no_faults "[]" Map.empty demo_cwd no_scripts_fs]
  have 2: "exit_status no_faults (main [] Map.empty no_faults demo_cwd no_scripts_fs) \<noteq> 0"
    by blast
  from bad 1 nf exit_status_iff_failure [of print_broken "[]" Map.empty demo_cwd demo_fs]
  have 3: "list_ex failed (events (final (main [] Map.empty print_broken demo_cwd demo_fs)))"
    unfolding list_ex_iff by auto
  from ok a bad nf 1 2 3 show ?thesis by blast
qed

subsection \<open>C5: a second run changes nothing\<close>



subsection \<open>C6: the copies never collide\<close>

text \<open>
  C6: once the reset has gone through, neither \<^verbatim>\<open>.skill/scripts\<close> nor
  \<^verbatim>\<open>.skill/data\<close> exists, and \<^verbatim>\<open>.skill/data\<close> still does not exist after
  the copy of \<^verbatim>\<open>scripts\<close>. So no copy of a run ever raises
  \<^verbatim>\<open>FileExistsError\<close>, and no run ends with it.
\<close>

theorem no_collision_after_reset:
  assumes "wf_fs t"
  shows "(\<forall>s d. Copytree s d (Some FileExistsError)
            \<notin> set (events (final (main argv environ env cwd t))))
       \<and> (\<forall>w. main argv environ env cwd t \<noteq> Raised FileExistsError w)
       \<and> (\<forall>t1. reset env cwd t = Inr t1 \<longrightarrow>
             \<not> path_exists t1 (scripts_dest cwd) \<and> \<not> path_exists t1 (data_dest cwd))
       \<and> (\<forall>t1 t2. reset env cwd t = Inr t1
             \<and> copytree (scripts_fault env) t1 scripts_src (scripts_dest cwd) = Inr t2 \<longrightarrow>
             \<not> path_exists t2 (data_dest cwd))"
proof -
  have a: "\<not> path_exists t1 (scripts_dest cwd) \<and> \<not> path_exists t1 (data_dest cwd)"
    if "reset env cwd t = Inr t1" for t1
    using clean_after_reset [OF assms that] below_dests [of cwd]
    by (simp add: without_dest_def path_exists_def)
  have b: "\<not> path_exists t2 (data_dest cwd)"
    if "reset env cwd t = Inr t1"
      and "copytree (scripts_fault env) t1 scripts_src (scripts_dest cwd) = Inr t2" for t1 t2
    using copytree_frame [where t = t1 and q = "data_dest cwd" and d = "scripts_dest cwd"
          and f = "scripts_fault env" and s = scripts_src] that(2) a [OF that(1)]
          siblings(1,4) [of cwd "[]"]
    by (simp add: path_exists_def)
  have c: "e \<noteq> FileExistsError" if "reset env cwd t = Inl (e, t')" for e t'
    using that by (rule reset_Inl(5))
  have d: "e \<noteq> FileExistsError"
    if "reset env cwd t = Inr t1"
      and "copytree (scripts_fault env) t1 scripts_src (scripts_dest cwd) = Inl (e, t')"
    for t1 e t'
    using copytree_Inl(2) [OF that(2)] a [OF that(1)] by (auto simp: path_exists_def)
  have e: "e \<noteq> FileExistsError"
    if "reset env cwd t = Inr t1"
      and "copytree (scripts_fault env) t1 scripts_src (scripts_dest cwd) = Inr t2"
      and "copytree (data_fault env) t2 data_src (data_dest cwd) = Inl (e, t')"
    for t1 t2 e t'
    using copytree_Inl(2) [OF that(3)] b [OF that(1,2)] by (auto simp: path_exists_def)
  have "Copytree s d (Some FileExistsError) \<notin> set (events (final (main argv environ env cwd t)))
      \<and> main argv environ env cwd t \<noteq> Raised FileExistsError w" for s d w
  proof (cases rule: run_cases [of env cwd "\<lparr>files = t, events = [], sys_argv = argv, os_environ = environ\<rparr>"])
    case (reset_raised e t')
    with c [of e t'] show ?thesis by (simp add: main_def reset_failure_def)
  next
    case (scripts_raised t1 e t')
    with d [of t1 e t'] show ?thesis by (auto simp: main_def reset_events_def)
  next
    case (print_scripts_raised t1 t2)
    then show ?thesis by (auto simp: main_def reset_events_def)
  next
    case (data_raised t1 t2 e t')
    with e [of t1 t2 e t'] show ?thesis by (auto simp: main_def reset_events_def)
  next
    case (print_data_raised t1 t2 t3)
    then show ?thesis by (auto simp: main_def reset_events_def)
  next
    case (returned t1 t2 t3)
    then show ?thesis by (auto simp: main_def reset_events_def)
  qed
  then have "\<forall>s d. Copytree s d (Some FileExistsError)
            \<notin> set (events (final (main argv environ env cwd t)))"
    and "\<forall>w. main argv environ env cwd t \<noteq> Raised FileExistsError w"
    by blast+
  then show ?thesis using a b by blast
qed

theorem no_collision_after_reset_witness:
  "wf_fs stale_fs
   \<and> exit_status no_faults (main [] Map.empty no_faults demo_cwd stale_fs) = 0
   \<and> Copytree scripts_src (scripts_dest demo_cwd) (Some FileExistsError)
        \<notin> set (events (final (main [] Map.empty no_faults demo_cwd stale_fs)))
   \<and> Copytree data_src (data_dest demo_cwd) (Some FileExistsError)
        \<notin> set (events (final (main [] Map.empty no_faults demo_cwd stale_fs)))"
proof -
  have wf: "wf_fs stale_fs" by (simp add: stale_fs_def wf_store)
  have ok: "exit_status no_faults (main [] Map.empty no_faults demo_cwd stale_fs) = 0" by code_simp
  from no_collision_after_reset [OF wf, of "[]" Map.empty no_faults demo_cwd] wf ok
  show ?thesis by blast
qed

subsection \<open>C7: the two lines\<close>

text \<open>
  C7: a run that returns has printed exactly two lines, the first right after
  the copy of scripts and the second right after the copy of data, each
  naming the destination of that copy as the script wrote it.
\<close>

theorem successful_run_output:
  assumes "main argv environ env cwd t = Returned w"
  shows "events w = reset_events t cwd @
           [Copytree scripts_src (scripts_dest cwd) None,
            Print (''Copied scripts to '' @ str_path (joinpath DEST_DIR ''scripts'')),
            Copytree data_src (data_dest cwd) None,
            Print (''Copied data to '' @ str_path (joinpath DEST_DIR ''data''))]
       \<and> stdout (events w) = [''Copied scripts to .skill'' @ [sep] @ ''scripts'',
                              ''Copied data to .skill'' @ [sep] @ ''data'']"
proof -
  note ev = returned_events [OF assms]
  have "stdout (reset_events t cwd) = []"
    by (simp add: reset_events_def)
  moreover have "stdout (xs @ ys) = stdout xs @ stdout ys" for xs ys
    by (induction xs rule: stdout.induct) simp_all
  ultimately have "stdout (events w) = [line1, line2]"
    using ev by simp
  with ev show ?thesis
    by (simp add: line1_def line2_def DEST_DIR_def)
qed

theorem successful_run_output_witness: "main [] Map.empty no_faults demo_cwd demo_fs
    = Returned (final (main [] Map.empty no_faults demo_cwd demo_fs))
  \<and> stdout (events (final (main [] Map.empty no_faults demo_cwd demo_fs))) = 
       [''Copied scripts to .skill'' @ [sep] @ ''scripts'',
                              ''Copied data to .skill'' @ [sep] @ ''data'']"
proof -
  have "exit_status no_faults (main [] Map.empty no_faults demo_cwd demo_fs) = 0" by code_simp
  then have h: "main [] Map.empty no_faults demo_cwd demo_fs
    = Returned (final (main [] Map.empty no_faults demo_cwd demo_fs))"
    by (rule returnedI)
  from successful_run_output [OF h] h show ?thesis by blast
qed

subsection \<open>C8: no arguments, no environment\<close>


subsection \<open>C9: what a run leaves alone\<close>

text \<open>
  C9, as stated: no run changes anything under the source directory. The
  destination is \<^verbatim>\<open>.skill\<close> in the working directory, so a process started
  in the source directory has its destination inside the source: the run
  below returns, and the file \<^verbatim>\<open>.skill/old.txt\<close> of the source directory is
  gone.
\<close>

theorem source_modified_from_inside:
  "wf_fs inside_fs
   \<and> is_dir inside_fs source
   \<and> exit_status no_faults (main [] Map.empty no_faults source inside_fs) = 0
   \<and> prefix source (source @ [''.skill'', ''old.txt''])
   \<and> inside_fs (source @ [''.skill'', ''old.txt'']) = Some (File [1])
   \<and> files (final (main [] Map.empty no_faults source inside_fs))
        (source @ [''.skill'', ''old.txt'']) = None"
proof -
  have "wf_fs inside_fs" by (simp add: inside_fs_def wf_store)
  moreover have "is_dir inside_fs source
   \<and> exit_status no_faults (main [] Map.empty no_faults source inside_fs) = 0
   \<and> prefix source (source @ [''.skill'', ''old.txt''])
   \<and> inside_fs (source @ [''.skill'', ''old.txt'']) = Some (File [1])
   \<and> files (final (main [] Map.empty no_faults source inside_fs))
        (source @ [''.skill'', ''old.txt'']) = None"
    by code_simp
  ultimately show ?thesis by blast
qed

text \<open>
  C9, amended: only the destination directory is deleted or written. On a
  file system in which the working directory exists, every run, returning or
  raising, leaves every location that is not the destination or below it as
  it was: nothing there is deleted, changed or created. On any store, what
  exists outside the destination is left as it was. So when the working
  directory is neither the source directory nor below it, everything at or
  below the source directory is left as it was.
\<close>

theorem source_untouched:
  "(wf_fs t \<and> is_dir t cwd \<longrightarrow>
      (\<forall>q. \<not> prefix (dest cwd) q \<longrightarrow> files (final (main argv environ env cwd t)) q = t q))
   \<and> (\<forall>q. \<not> prefix (dest cwd) q \<and> t q \<noteq> None \<longrightarrow>
          files (final (main argv environ env cwd t)) q = t q)
   \<and> (\<not> prefix source cwd \<longrightarrow>
        (\<forall>q. prefix source q \<longrightarrow> files (final (main argv environ env cwd t)) q = t q))"
proof (intro conjI allI impI)
  fix q assume h: "wf_fs t \<and> is_dir t cwd" and out: "\<not> prefix (dest cwd) q"
  have "t q \<noteq> None \<or> \<not> prefix q cwd"
  proof (cases "prefix q cwd")
    case False
    then show ?thesis by simp
  next
    case True
    from h have "t cwd \<noteq> None" by (simp add: is_dir_def)
    with h True have "t q = Some Dir"
      unfolding wf_fs_def by (cases "q = cwd") (auto simp: strict_prefix_def is_dir_def)
    then show ?thesis by simp
  qed
  with out show "files (final (main argv environ env cwd t)) q = t q"
    using run_frame [of cwd q "\<lparr>files = t, events = [], sys_argv = argv, os_environ = environ\<rparr>" env] by (simp add: main_def)
next
  fix q assume "\<not> prefix (dest cwd) q \<and> t q \<noteq> None"
  then show "files (final (main argv environ env cwd t)) q = t q"
    using run_frame [of cwd q "\<lparr>files = t, events = [], sys_argv = argv, os_environ = environ\<rparr>" env] by (simp add: main_def)
next
  fix q assume out: "\<not> prefix source cwd" and q: "prefix source q"
  have "\<not> prefix (dest cwd) q"
  proof
    assume "prefix (dest cwd) q"
    with q have "prefix source (dest cwd) \<or> prefix (dest cwd) source"
      using prefix_same_cases by blast
    then show False
      using out prefix_through [OF skill_notin(1), of cwd "[]"] not_prefix_of [OF skill_notin(1), of cwd "[]"]
      by (auto simp: locs)
  qed
  moreover have "\<not> prefix q cwd"
    using out q by (auto dest: prefix_order.trans)
  ultimately show "files (final (main argv environ env cwd t)) q = t q"
    using run_frame [of cwd q "\<lparr>files = t, events = [], sys_argv = argv, os_environ = environ\<rparr>" env] by (simp add: main_def)
qed

theorem source_untouched_witness:
  "wf_fs demo_fs
   \<and> is_dir demo_fs demo_cwd
   \<and> \<not> prefix (dest demo_cwd) [''C:'', ''Windows'', ''new.dll'']
   \<and> files (final (main [] Map.empty data_interrupted demo_cwd demo_fs))
        [''C:'', ''Windows'', ''new.dll''] = None
   \<and> \<not> prefix source demo_cwd
   \<and> prefix source (scripts_src @ [''build.sh''])
   \<and> exit_status data_interrupted (main [] Map.empty data_interrupted demo_cwd demo_fs) = 1
   \<and> files (final (main [] Map.empty data_interrupted demo_cwd demo_fs))
        (scripts_src @ [''build.sh'']) = Some (File [35, 33])
   \<and> files (final (main [] Map.empty no_faults demo_cwd demo_fs))
        (scripts_src @ [''build.sh'']) = Some (File [35, 33])"
proof -
  have wf: "wf_fs demo_fs" by (simp add: demo_fs_def wf_store)
  have cwd: "is_dir demo_fs demo_cwd" by code_simp
  have a: "\<not> prefix source demo_cwd" "prefix source (scripts_src @ [''build.sh''])"
    "\<not> prefix (dest demo_cwd) [''C:'', ''Windows'', ''new.dll'']"
    by code_simp+
  have bad: "exit_status data_interrupted (main [] Map.empty data_interrupted demo_cwd demo_fs) = 1"
    by code_simp
  have v: "demo_fs (scripts_src @ [''build.sh'']) = Some (File [35, 33])"
    "demo_fs [''C:'', ''Windows'', ''new.dll''] = None" by code_simp+
  from wf cwd a v source_untouched [of demo_fs demo_cwd "[]" Map.empty data_interrupted]
  have 1: "files (final (main [] Map.empty data_interrupted demo_cwd demo_fs))
        (scripts_src @ [''build.sh'']) = Some (File [35, 33])"
    "files (final (main [] Map.empty data_interrupted demo_cwd demo_fs))
        [''C:'', ''Windows'', ''new.dll''] = None" by simp_all
  from a v source_untouched [of demo_fs demo_cwd "[]" Map.empty no_faults]
  have 2: "files (final (main [] Map.empty no_faults demo_cwd demo_fs))
        (scripts_src @ [''build.sh'']) = Some (File [35, 33])" by simp
  from wf cwd a bad 1 2 show ?thesis by blast
qed

subsection \<open>C10: the reset is guarded\<close>



end
